theory Spec2Isabelle
  imports Main
begin

section \<open>Errors and tensors\<close>

text \<open>
  The exceptions that the evaluator can raise: \<open>ValueError\<close> from its own two checks (and
  from Python's \<open>range\<close> with a zero step), \<open>RuntimeError\<close> from the tensor library when
  shapes do not fit, \<open>IndexError\<close> from a reduction over an empty dimension or an index
  beyond a list, \<open>AssertionError\<close> from the assert in \<open>evaluate\<close>, and
  \<open>ZeroDivisionError\<close> from the division there.
\<close>

datatype error = ValueError | RuntimeError | IndexError | AssertionError | ZeroDivisionError

text \<open>
  A tensor of rank 1 is a list of scalars. A tensor of rank 2 of shape \<open>(n, d)\<close> keeps its
  second dimension beside its \<open>n\<close> rows, so that the shape \<open>(0, d)\<close> is not lost. Scalars are
  the elements of a linearly ordered ring: rounding is not modelled.
\<close>

record 'a tensor2 =
  ncols :: nat
  trows :: "'a list list"

definition wf_tensor2 :: "'a tensor2 \<Rightarrow> bool" where
  "wf_tensor2 t = (\<forall>r \<in> set (trows t). length r = ncols t)"

definition bindE :: "error + 'a \<Rightarrow> ('a \<Rightarrow> error + 'b) \<Rightarrow> error + 'b" where
  "bindE m f = (case m of Inl e \<Rightarrow> Inl e | Inr x \<Rightarrow> f x)"

section \<open>Single-vector scores\<close>

text \<open>
  \<open>torch.stack\<close> of rank-1 tensors: the list must not be empty and every tensor must have
  the size of the first one.
\<close>

definition stack :: "'a list list \<Rightarrow> error + 'a tensor2" where
  "stack ts =
     (if ts = [] then Inl RuntimeError
      else if \<exists>t \<in> set ts. length (hd ts) \<noteq> length t then Inl RuntimeError
      else Inr \<lparr>ncols = length (hd ts), trows = ts\<rparr>)"

text \<open>
  \<open>einsum\<close> sums the products over the shared subscript \<open>d\<close>. The two sizes of \<open>d\<close> must be
  equal, or one of them must be 1, in which case that operand is broadcast.
\<close>

definition broadcastable :: "nat \<Rightarrow> nat \<Rightarrow> bool" where
  "broadcastable d d' = (d = d' \<or> d = 1 \<or> d' = 1)"

definition dot :: "'a::linordered_idom list \<Rightarrow> 'a list \<Rightarrow> 'a" where
  "dot x y = sum_list (map2 (*) x y)"

definition bdot :: "'a::linordered_idom list \<Rightarrow> 'a list \<Rightarrow> 'a" where
  "bdot x y =
     (if length x = length y then dot x y
      else if length x = 1 then hd x * sum_list y
      else sum_list x * hd y)"

definition einsum_bd_cd :: "'a::linordered_idom tensor2 \<Rightarrow> 'a tensor2 \<Rightarrow> error + 'a tensor2" where
  "einsum_bd_cd Q P =
     (if \<not> broadcastable (ncols Q) (ncols P) then Inl RuntimeError
      else Inr \<lparr>ncols = length (trows P),
                trows = map (\<lambda>q. map (\<lambda>p. bdot q p) (trows P)) (trows Q)\<rparr>)"

definition get_single_vector_scores ::
  "'a::linordered_idom list list \<Rightarrow> 'a list list \<Rightarrow> error + 'a tensor2" where
  "get_single_vector_scores qs ps =
     (if length qs = 0 then Inl ValueError
      else if length ps = 0 then Inl ValueError
      else bindE (stack qs) (\<lambda>qs_stacked.
           bindE (stack ps) (\<lambda>ps_stacked.
           einsum_bd_cd qs_stacked ps_stacked)))"

section \<open>Multi-vector scores\<close>

text \<open>
  A tensor of rank 3 of shape \<open>(b, n, d)\<close> keeps \<open>n\<close> and \<open>d\<close> beside its \<open>b\<close> elements, and
  a tensor of rank 4 of shape \<open>(b, c, n, s)\<close> keeps \<open>c\<close>, \<open>n\<close> and \<open>s\<close>.
\<close>

record 'a tensor3 =
  len3 :: nat
  dim3 :: nat
  elems3 :: "'a list list list"

record 'a tensor4 =
  dimc :: nat
  dimn :: nat
  dims :: nat
  elems4 :: "'a list list list list"

text \<open>Running a loop body over a list and appending each result stops at the first error.\<close>

primrec mapE :: "('a \<Rightarrow> error + 'b) \<Rightarrow> 'a list \<Rightarrow> error + 'b list" where
  "mapE f [] = Inr []"
| "mapE f (x # xs) = bindE (f x) (\<lambda>y. bindE (mapE f xs) (\<lambda>ys. Inr (y # ys)))"

text \<open>
  Python's \<open>range(0, stop, step)\<close>: a zero step raises \<open>ValueError\<close>, a negative step gives
  no index from 0 upwards, a positive step gives \<open>0, step, 2 * step, ...\<close> below \<open>stop\<close>.
\<close>

function range_up :: "nat \<Rightarrow> nat \<Rightarrow> nat \<Rightarrow> nat list" where
  "range_up i stop step =
     (if step = 0 \<or> stop \<le> i then [] else i # range_up (i + step) stop step)"
  by pat_completeness auto
termination
  by (relation "measure (\<lambda>(i, stop, step). stop - i)") auto

declare range_up.simps [simp del]

definition py_range :: "nat \<Rightarrow> int \<Rightarrow> error + nat list" where
  "py_range stop step =
     (if step = 0 then Inl ValueError
      else if step < 0 then Inr []
      else Inr (range_up 0 stop (nat step)))"

text \<open>The slice \<open>xs[i : j]\<close> for indices \<open>0 \<le> i\<close> and \<open>0 \<le> j\<close>.\<close>

definition slice :: "'a list \<Rightarrow> nat \<Rightarrow> nat \<Rightarrow> 'a list" where
  "slice xs i j = drop i (take j xs)"

text \<open>
  \<open>pad_sequence\<close> with \<open>batch_first=True\<close> and \<open>padding_value=0\<close>: the list must not be
  empty and, as the library documents it, the sequences must agree in their trailing
  dimension; each is extended at its end with zero vectors up to the length of the longest
  sequence of the batch.
\<close>

definition pad_sequence :: "'a::zero tensor2 list \<Rightarrow> error + 'a tensor3" where
  "pad_sequence ts =
     (if ts = [] then Inl RuntimeError
      else if \<exists>t \<in> set ts. ncols (hd ts) \<noteq> ncols t then Inl RuntimeError
      else
        let L = fold max (map (\<lambda>t. length (trows t)) ts) 0;
            d = ncols (hd ts)
        in Inr \<lparr>len3 = L, dim3 = d,
                 elems3 = map (\<lambda>t. trows t @ replicate (L - length (trows t)) (replicate d 0)) ts\<rparr>)"

definition einsum_bnd_csd :: "'a::linordered_idom tensor3 \<Rightarrow> 'a tensor3 \<Rightarrow> error + 'a tensor4" where
  "einsum_bnd_csd Q P =
     (if \<not> broadcastable (dim3 Q) (dim3 P) then Inl RuntimeError
      else Inr \<lparr>dimc = length (elems3 P), dimn = len3 Q, dims = len3 P,
                elems4 = map (\<lambda>q. map (\<lambda>p. map (\<lambda>qt. map (\<lambda>pt. bdot qt pt) p) q) (elems3 P))
                           (elems3 Q)\<rparr>)"

text \<open>The maximum of a non-empty list.\<close>

fun max_list :: "'a::linorder list \<Rightarrow> 'a" where
  "max_list (x # xs) = fold max xs x"

text \<open>\<open>max(dim=3)[0]\<close>: the maxima along the last dimension, which must not be empty.\<close>

definition max_dim3 :: "'a::linorder tensor4 \<Rightarrow> error + 'a tensor3" where
  "max_dim3 T =
     (if dims T = 0 then Inl IndexError
      else Inr \<lparr>len3 = dimc T, dim3 = dimn T,
                elems3 = map (map (map max_list)) (elems4 T)\<rparr>)"

definition sum_dim2 :: "'a::monoid_add tensor3 \<Rightarrow> 'a tensor2" where
  "sum_dim2 T = \<lparr>ncols = len3 T, trows = map (map sum_list) (elems3 T)\<rparr>"

text \<open>
  \<open>torch.cat\<close> of a list of rank-2 tensors: the list must not be empty and the tensors must
  agree in the other dimension.
\<close>

definition cat_dim1 :: "'a tensor2 list \<Rightarrow> error + 'a tensor2" where
  "cat_dim1 ts =
     (if ts = [] then Inl RuntimeError
      else if \<exists>t \<in> set ts. length (trows (hd ts)) \<noteq> length (trows t) then Inl RuntimeError
      else Inr \<lparr>ncols = sum_list (map ncols ts),
                trows = map (\<lambda>b. concat (map (\<lambda>t. trows t ! b) ts))
                          [0 ..< length (trows (hd ts))]\<rparr>)"

definition cat_dim0 :: "'a tensor2 list \<Rightarrow> error + 'a tensor2" where
  "cat_dim0 ts =
     (if ts = [] then Inl RuntimeError
      else if \<exists>t \<in> set ts. ncols (hd ts) \<noteq> ncols t then Inl RuntimeError
      else Inr \<lparr>ncols = ncols (hd ts), trows = concat (map trows ts)\<rparr>)"

text \<open>
  The two nested loops over batches of queries and of passages. Moving a tensor to the
  device or to the CPU does not change its value.
\<close>

definition get_multi_vector_scores ::
  "'a::linordered_idom tensor2 list \<Rightarrow> 'a tensor2 list \<Rightarrow> int \<Rightarrow> error + 'a tensor2" where
  "get_multi_vector_scores qs ps batch_size =
     (if length qs = 0 then Inl ValueError
      else if length ps = 0 then Inl ValueError
      else
        bindE (py_range (length qs) batch_size) (\<lambda>is.
        bindE (mapE (\<lambda>i.
            bindE (pad_sequence (slice qs i (i + nat batch_size))) (\<lambda>qs_batch.
            bindE (py_range (length ps) batch_size) (\<lambda>js.
            bindE (mapE (\<lambda>j.
                bindE (pad_sequence (slice ps j (j + nat batch_size))) (\<lambda>ps_batch.
                bindE (einsum_bnd_csd qs_batch ps_batch) (\<lambda>sim.
                bindE (max_dim3 sim) (\<lambda>best.
                Inr (sum_dim2 best))))) js) (\<lambda>scores_batch.
            cat_dim1 scores_batch)))) is) (\<lambda>scores_list.
        cat_dim0 scores_list)))"

text \<open>The default value of the parameter \<open>batch_size\<close>.\<close>

definition default_batch_size :: int where
  "default_batch_size = 128"

text \<open>
  MaxSim of a query and a passage, each a list of token vectors: for each query token the
  largest dot product with a passage token, summed over the query tokens.
\<close>

definition max_sim :: "'a::linordered_idom list list \<Rightarrow> 'a list list \<Rightarrow> 'a" where
  "max_sim q p = sum_list (map (\<lambda>qt. Max (set (map (\<lambda>pt. dot qt pt) p))) q)"

section \<open>The evaluator\<close>

text \<open>
  The fields of \<open>CustomRetrievalEvaluator\<close>. The retrieval evaluator of the metrics library
  is external: it is a record of its \<open>k_values\<close> and of what its two methods return.
  A dictionary is the list of its items, in insertion order.
\<close>

type_synonym 'v dict = "(string \<times> 'v) list"

record ('rd, 'res, 'v) retrieval_evaluator =
  k_values :: "nat list"
  mteb_evaluate :: "'rd \<Rightarrow> 'res \<Rightarrow> nat list \<Rightarrow> bool \<Rightarrow>
    'v dict \<times> 'v dict \<times> 'v dict \<times> 'v dict \<times> 'v dict"
  evaluate_custom :: "'rd \<Rightarrow> 'res \<Rightarrow> nat list \<Rightarrow> string \<Rightarrow> 'v dict \<times> 'v dict"

record ('args, 'ev) evaluator =
  is_multi_vector :: bool
  mteb_evaluator_args :: 'args
  mteb_evaluator :: 'ev
  device :: string

text \<open>
  What a call can change: the evaluator object and the output of the logger, which receives
  one line per call of \<open>evaluate\<close>, here the number of queries whose best passage has the
  index of the query, and the number of queries.
\<close>

record ('args, 'ev) world =
  self :: "('args, 'ev) evaluator"
  log :: "(nat \<times> nat) list"

text \<open>
  The embeddings given to \<open>evaluate\<close> are a list of tensors of rank 1 or a list of tensors
  of rank 2.
\<close>

datatype 'a embeddings = Vectors "'a list list" | Token_matrices "'a tensor2 list"

definition len :: "'a embeddings \<Rightarrow> nat" where
  "len e = (case e of Vectors vs \<Rightarrow> length vs | Token_matrices ts \<Rightarrow> length ts)"

text \<open>
  Embeddings of the wrong rank pass the two checks on the lengths and are then rejected
  by the tensor library: \<open>einsum\<close> raises \<open>RuntimeError\<close> for an operand whose rank differs
  from the number of its subscripts (unless \<open>stack\<close> or \<open>pad_sequence\<close> has raised it before).
\<close>

definition wrong_rank :: "'a embeddings \<Rightarrow> 'a embeddings \<Rightarrow> error + 'b" where
  "wrong_rank qs ps =
     (if len qs = 0 then Inl ValueError
      else if len ps = 0 then Inl ValueError
      else Inl RuntimeError)"

text \<open>The index of the first maximum of a row, as \<open>argmax\<close> returns it.\<close>

definition argmax :: "'a::linorder list \<Rightarrow> nat" where
  "argmax xs = length (takeWhile (\<lambda>x. x \<noteq> max_list xs) xs)"

definition evaluate ::
  "('args, 'ev) world \<Rightarrow> 'a::linordered_idom embeddings \<Rightarrow> 'a embeddings \<Rightarrow>
   (error + 'a tensor2) \<times> ('args, 'ev) world" where
  "evaluate w qs ps =
     (case (if is_multi_vector (self w)
            then (case (qs, ps) of
                    (Token_matrices q, Token_matrices p) \<Rightarrow>
                      get_multi_vector_scores q p default_batch_size
                  | _ \<Rightarrow> wrong_rank qs ps)
            else (case (qs, ps) of
                    (Vectors q, Vectors p) \<Rightarrow> get_single_vector_scores q p
                  | _ \<Rightarrow> wrong_rank qs ps)) of
        Inl e \<Rightarrow> (Inl e, w)
      | Inr scores \<Rightarrow>
          if length (trows scores) \<noteq> len qs then (Inl AssertionError, w)
          else if ncols scores = 0 then (Inl IndexError, w)
          else
            let arg_score = map argmax (trows scores);
                hits = length (filter (\<lambda>(a, b). a = b)
                                 (zip arg_score [0 ..< length (trows scores)]))
            in if length (trows scores) = 0 then (Inl ZeroDivisionError, w)
               else (Inr scores, w\<lparr>log := log w @ [(hits, length (trows scores))]\<rparr>))"

section \<open>Metrics\<close>

text \<open>Python's \<open>str.split\<close> with a separator of one character.\<close>

fun split_on :: "char \<Rightarrow> string \<Rightarrow> string list" where
  "split_on c [] = [[]]"
| "split_on c (x # xs) =
     (if x = c then [] # split_on c xs
      else (case split_on c xs of
              [] \<Rightarrow> [[x]]
            | w # ws \<Rightarrow> (x # w) # ws))"

text \<open>
  The key \<open>f"<prefix>_at_{k.split('@')[1]}"\<close>; the index 1 raises \<open>IndexError\<close> when the key
  has no \<open>@\<close>.
\<close>

definition at_key :: "string \<Rightarrow> string \<Rightarrow> error + string" where
  "at_key prefix k =
     (let parts = split_on CHR ''@'' k
      in if length parts \<le> 1 then Inl IndexError
         else Inr (prefix @ ''_at_'' @ parts ! 1))"




section \<open>Auxiliary notions for the proofs\<close>

text \<open>Appending \<open>k\<close> all-zero token vectors to a token matrix.\<close>

definition append_zero_tokens :: "nat \<Rightarrow> 'a::zero tensor2 \<Rightarrow> 'a tensor2" where
  "append_zero_tokens k q = q\<lparr>trows := trows q @ replicate k (replicate (ncols q) 0)\<rparr>"

text \<open>What line 120 computes for one query and one passage of the padded batches: the sum over
  the query tokens of the largest \<open>einsum\<close> entry over the passage tokens.\<close>

definition padded_max_sim :: "'a::linordered_idom list list \<Rightarrow> 'a list list \<Rightarrow> 'a" where
  "padded_max_sim q p = sum_list (map (\<lambda>qt. max_list (map (\<lambda>pt. bdot qt pt) p)) q)"

text \<open>The expression of line 120 for one batch of queries and one batch of passages.\<close>

definition score_block :: "'a::linordered_idom tensor3 \<Rightarrow> 'a tensor3 \<Rightarrow> error + 'a tensor2" where
  "score_block Q P =
     bindE (einsum_bnd_csd Q P) (\<lambda>sim. bindE (max_dim3 sim) (\<lambda>best. Inr (sum_dim2 best)))"

text \<open>The inner loop and the concatenation that follows it, for one padded batch of queries.\<close>

definition batch_scores ::
  "'a::linordered_idom tensor2 list \<Rightarrow> int \<Rightarrow> 'a tensor3 \<Rightarrow> error + 'a tensor2" where
  "batch_scores ps batch_size Q =
     bindE (py_range (length ps) batch_size) (\<lambda>js.
     bindE (mapE (\<lambda>j. bindE (pad_sequence (slice ps j (j + nat batch_size))) (score_block Q)) js)
       cat_dim1)"

text \<open>Two padded batches that differ only in the number of zero vectors after each sequence.\<close>

definition zero_extension :: "'a::zero tensor3 \<Rightarrow> 'a tensor3 \<Rightarrow> bool" where
  "zero_extension Q Q' =
     (dim3 Q' = dim3 Q \<and> length (elems3 Q') = length (elems3 Q) \<and>
      (\<forall>k < length (elems3 Q). \<exists>rs a b.
          elems3 Q ! k = rs @ replicate a (replicate (dim3 Q) 0) \<and>
          elems3 Q' ! k = rs @ replicate b (replicate (dim3 Q) 0)))"

text \<open>The check of \<open>pad_sequence\<close> on the trailing dimension.\<close>

definition same_ncols :: "'a tensor2 list \<Rightarrow> bool" where
  "same_ncols ts = (ts \<noteq> [] \<and> (\<forall>t \<in> set ts. ncols (hd ts) = ncols t))"

text \<open>The length of the longest sequence of a batch.\<close>

definition longest :: "'a tensor2 list \<Rightarrow> nat" where
  "longest ts = fold max (map (\<lambda>t. length (trows t)) ts) 0"

text \<open>The sequences of a batch after padding.\<close>

definition padded_batch :: "'a::zero tensor2 list \<Rightarrow> 'a list list list" where
  "padded_batch ts =
     map (\<lambda>t. trows t @ replicate (longest ts - length (trows t)) (replicate (ncols (hd ts)) 0)) ts"

text \<open>
  The row of scores of one query against all passages, batch after batch of passages.
\<close>

definition score_row :: "'a::linordered_idom tensor2 list \<Rightarrow> nat \<Rightarrow> 'a list list \<Rightarrow> 'a list" where
  "score_row ps step q =
     concat (map (\<lambda>j. map (\<lambda>p. padded_max_sim q p) (padded_batch (slice ps j (j + step))))
               (range_up 0 (length ps) step))"

text \<open>A tensor of rank 2 with \<open>r\<close> rows of \<open>c\<close> entries each.\<close>

definition has_shape :: "'a tensor2 \<Rightarrow> nat \<Rightarrow> nat \<Rightarrow> bool" where
  "has_shape m r c = (length (trows m) = r \<and> ncols m = c \<and> wf_tensor2 m)"

text \<open>The call of the scoring routine that \<open>evaluate\<close> selects.\<close>

definition selected_scores ::
  "bool \<Rightarrow> 'a::linordered_idom embeddings \<Rightarrow> 'a embeddings \<Rightarrow> error + 'a tensor2" where
  "selected_scores multi qs ps =
     (if multi
      then (case (qs, ps) of
              (Token_matrices q, Token_matrices p) \<Rightarrow>
                get_multi_vector_scores q p default_batch_size
            | _ \<Rightarrow> wrong_rank qs ps)
      else (case (qs, ps) of
              (Vectors q, Vectors p) \<Rightarrow> get_single_vector_scores q p
            | _ \<Rightarrow> wrong_rank qs ps))"


definition has_at :: "string \<Rightarrow> bool" where
  "has_at k = (1 < length (split_on CHR ''@'' k))"




text \<open>
  Two evaluators for examples. The first returns one or two entries per metric. The second
  returns the keys of the normalised areas under the curve as the metrics library forms
  them, \<open>nAUC_<metric>@<k>_<function>\<close>, for two metrics.
\<close>

definition example_evaluator :: "(unit, (unit, unit, int) retrieval_evaluator) evaluator" where
  "example_evaluator =
     \<lparr>is_multi_vector = False, mteb_evaluator_args = (),
      mteb_evaluator =
        \<lparr>k_values = [1, 3],
         mteb_evaluate = (\<lambda>rd res ks ign.
           ([(''NDCG@1'', 5), (''NDCG@3'', 6)], [(''MAP@1'', 7)], [(''Recall@1'', 8)],
            [(''P@1'', 9)], [(''nAUC_NDCG@1_max'', 1)])),
         evaluate_custom = (\<lambda>rd res ks name. ([(''MRR@1'', 4)], []))\<rparr>,
      device = ''cpu''\<rparr>"


text \<open>
  Embeddings for examples: a query of one token, a passage of one token and a passage of
  two tokens, of dimension 1; every passage token has the dot product \<open>-1\<close> with the query
  token.
\<close>

definition one_token_query :: "int tensor2" where
  "one_token_query = \<lparr>ncols = 1, trows = [[1]]\<rparr>"

definition short_passage :: "int tensor2" where
  "short_passage = \<lparr>ncols = 1, trows = [[- 1]]\<rparr>"

definition long_passage :: "int tensor2" where
  "long_passage = \<lparr>ncols = 1, trows = [[- 1], [- 1]]\<rparr>"

section \<open>Properties\<close>

subsection \<open>Loops, slices and padding\<close>

lemma bindE_Inr_iff: "bindE m f = Inr y \<longleftrightarrow> (\<exists>x. m = Inr x \<and> f x = Inr y)"
  by (cases m) (simp_all add: bindE_def)

lemma bindE_simps [simp]: "bindE (Inl e) f = Inl e" "bindE (Inr x) f = f x"
  by (simp_all add: bindE_def)

lemma mapE_cong: "(\<And>x. x \<in> set xs \<Longrightarrow> f x = g x) \<Longrightarrow> mapE f xs = mapE g xs"
  by (induction xs) simp_all

lemma mapE_Inr_length: "mapE f xs = Inr ys \<Longrightarrow> length ys = length xs"
  by (induction xs arbitrary: ys) (auto simp: bindE_Inr_iff)

lemma mapE_Inr_nth: "mapE f xs = Inr ys \<Longrightarrow> k < length xs \<Longrightarrow> f (xs ! k) = Inr (ys ! k)"
proof (induction xs arbitrary: ys k)
  case Nil
  then show ?case by simp
next
  case (Cons x xs)
  then show ?case by (cases k) (auto simp: bindE_Inr_iff)
qed

lemma mapE_map: "mapE f (map g xs) = mapE (\<lambda>x. f (g x)) xs"
  by (induction xs) simp_all

lemma range_up_bound: "i \<in> set (range_up k n step) \<Longrightarrow> k \<le> i \<and> i < n"
proof (induction k n step rule: range_up.induct)
  case (1 k n step)
  then show ?case
    by (subst (asm) range_up.simps) (auto split: if_splits)
qed

lemma concat_slices:
  "0 < step \<Longrightarrow>
   concat (map (\<lambda>i. slice xs i (i + step)) (range_up k (length xs) step)) = drop k xs"
proof (induction k "length xs" step rule: range_up.induct)
  case (1 k step)
  show ?case
  proof (cases "length xs \<le> k")
    case True
    then show ?thesis by (subst range_up.simps) simp
  next
    case False
    have "slice xs k (k + step) @ drop (k + step) xs = drop k xs"
      by (metis add.commute append_take_drop_id drop_drop drop_take add_diff_cancel_left' slice_def)
    with False 1 show ?thesis
      by (subst range_up.simps) simp
  qed
qed

lemma range_up_nonempty: "0 < step \<Longrightarrow> k < n \<Longrightarrow> range_up k n step \<noteq> []"
  by (subst range_up.simps) simp

lemma slice_nonempty: "i < length xs \<Longrightarrow> 0 < step \<Longrightarrow> slice xs i (i + step) \<noteq> []"
  by (simp add: slice_def)

lemma get_multi_vector_scores_unfold:
  "get_multi_vector_scores qs ps batch_size =
     (if qs = [] then Inl ValueError
      else if ps = [] then Inl ValueError
      else bindE (py_range (length qs) batch_size) (\<lambda>is.
           bindE (mapE (\<lambda>i. bindE (pad_sequence (slice qs i (i + nat batch_size)))
                               (batch_scores ps batch_size)) is)
             cat_dim0))"
  unfolding get_multi_vector_scores_def batch_scores_def score_block_def by simp

lemma score_block_eq:
  "score_block Q P =
     (if \<not> broadcastable (dim3 Q) (dim3 P) then Inl RuntimeError
      else if len3 P = 0 then Inl IndexError
      else Inr \<lparr>ncols = length (elems3 P),
                trows = map (\<lambda>q. map (\<lambda>p. padded_max_sim q p) (elems3 P)) (elems3 Q)\<rparr>)"
  by (simp add: score_block_def einsum_bnd_csd_def max_dim3_def sum_dim2_def padded_max_sim_def
      comp_def)

lemma bdot_zero_left [simp]: "bdot (replicate d 0) y = 0"
proof -
  have z: "sum_list (replicate d (0::'a)) = 0" by (induction d) simp_all
  have "dot (replicate d 0) y = 0"
    unfolding dot_def by (induction d arbitrary: y) (auto simp: zip_Cons1 split: list.splits)
  then show ?thesis
    by (auto simp: bdot_def z)
qed

lemma max_list_replicate: "0 < n \<Longrightarrow> max_list (replicate n x) = x"
proof (cases n)
  case 0
  then show "0 < n \<Longrightarrow> ?thesis" by simp
next
  case (Suc k)
  have "fold max (replicate k x) x = x" by (induction k) simp_all
  with Suc show ?thesis by simp
qed

lemma padded_max_sim_append:
  "padded_max_sim (q @ q') p = padded_max_sim q p + padded_max_sim q' p"
  by (simp add: padded_max_sim_def)

lemma padded_max_sim_zero_tokens:
  assumes "p \<noteq> []"
  shows "padded_max_sim (replicate k (replicate d 0)) p = 0"
proof -
  have "max_list (map (\<lambda>pt. bdot (replicate d (0::'a)) pt) p) = 0"
    using assms max_list_replicate [of "length p" "0::'a"] by (simp add: map_replicate_const)
  then show ?thesis
    by (induction k) (simp_all add: padded_max_sim_def)
qed

lemma padded_max_sim_pad:
  "p \<noteq> [] \<Longrightarrow> padded_max_sim (q @ replicate k (replicate d 0)) p = padded_max_sim q p"
  by (simp add: padded_max_sim_append padded_max_sim_zero_tokens)

lemma score_block_zero_extension:
  assumes "zero_extension Q Q'" and "\<forall>p \<in> set (elems3 P). length p = len3 P"
  shows "score_block Q' P = score_block Q P"
proof (cases "broadcastable (dim3 Q) (dim3 P) \<and> len3 P \<noteq> 0")
  case False
  with assms(1) show ?thesis by (auto simp: score_block_eq zero_extension_def)
next
  case True
  have ne: "p \<noteq> []" if "p \<in> set (elems3 P)" for p
    using that assms(2) True by auto
  have "map (\<lambda>p. padded_max_sim (elems3 Q' ! k) p) (elems3 P) =
        map (\<lambda>p. padded_max_sim (elems3 Q ! k) p) (elems3 P)" if "k < length (elems3 Q)" for k
  proof -
    from assms(1) that obtain rs a b where
      "elems3 Q ! k = rs @ replicate a (replicate (dim3 Q) 0)"
      "elems3 Q' ! k = rs @ replicate b (replicate (dim3 Q) 0)"
      unfolding zero_extension_def by blast
    then show ?thesis by (simp add: padded_max_sim_pad ne)
  qed
  then have "map (\<lambda>q. map (\<lambda>p. padded_max_sim q p) (elems3 P)) (elems3 Q') =
             map (\<lambda>q. map (\<lambda>p. padded_max_sim q p) (elems3 P)) (elems3 Q)"
    using assms(1) by (intro nth_equalityI) (simp_all add: zero_extension_def)
  with True assms(1) show ?thesis
    by (simp add: score_block_eq zero_extension_def)
qed

lemma fold_max_ge: "x \<in> set xs \<Longrightarrow> x \<le> fold max xs (a::nat)"
proof -
  have "fold max xs a = Max (set (a # xs))"
    by (simp only: Max.set_eq_fold)
  then show "x \<in> set xs \<Longrightarrow> ?thesis" by simp
qed

lemma pad_sequence_eq:
  "pad_sequence ts =
     (if same_ncols ts
      then Inr \<lparr>len3 = longest ts, dim3 = ncols (hd ts),
                elems3 = map (\<lambda>t. trows t @ replicate (longest ts - length (trows t))
                                    (replicate (ncols (hd ts)) 0)) ts\<rparr>
      else Inl RuntimeError)"
  unfolding pad_sequence_def same_ncols_def longest_def Let_def by simp

lemma pad_sequence_Inr:
  assumes "pad_sequence ts = Inr P"
  shows "same_ncols ts" and "len3 P = longest ts" and "dim3 P = ncols (hd ts)"
    and "elems3 P = map (\<lambda>t. trows t @ replicate (longest ts - length (trows t))
                          (replicate (ncols (hd ts)) 0)) ts"
proof -
  show s: "same_ncols ts"
    using assms by (cases "same_ncols ts") (simp_all add: pad_sequence_eq)
  with assms have P: "P = \<lparr>len3 = longest ts, dim3 = ncols (hd ts),
                elems3 = map (\<lambda>t. trows t @ replicate (longest ts - length (trows t))
                                    (replicate (ncols (hd ts)) 0)) ts\<rparr>"
    by (simp add: pad_sequence_eq)
  show "len3 P = longest ts" by (subst P) simp
  show "dim3 P = ncols (hd ts)" by (subst P) simp
  show "elems3 P = map (\<lambda>t. trows t @ replicate (longest ts - length (trows t))
                          (replicate (ncols (hd ts)) 0)) ts"
    by (subst P) simp
qed

lemma longest_ge: "t \<in> set ts \<Longrightarrow> length (trows t) \<le> longest ts"
  unfolding longest_def by (rule fold_max_ge) simp

lemma pad_sequence_padded:
  assumes "pad_sequence ts = Inr P"
  shows "\<forall>p \<in> set (elems3 P). length p = len3 P"
proof
  fix p assume "p \<in> set (elems3 P)"
  then obtain t where t: "t \<in> set ts"
    and p: "p = trows t @ replicate (longest ts - length (trows t)) (replicate (ncols (hd ts)) 0)"
    by (subst (asm) pad_sequence_Inr(4) [OF assms]) auto
  from p longest_ge [OF t] show "length p = len3 P"
    by (simp add: pad_sequence_Inr(2) [OF assms])
qed

lemma batch_scores_zero_extension:
  assumes "zero_extension Q Q'"
  shows "batch_scores ps batch_size Q' = batch_scores ps batch_size Q"
proof -
  have "bindE (pad_sequence ts) (score_block Q') = bindE (pad_sequence ts) (score_block Q)" for ts
  proof (cases "pad_sequence ts")
    case (Inl e)
    then show ?thesis by simp
  next
    case (Inr P)
    then show ?thesis
      using score_block_zero_extension [OF assms pad_sequence_padded [OF Inr]] by simp
  qed
  then show ?thesis by (simp add: batch_scores_def)
qed

lemma ncols_append_zero_tokens [simp]: "ncols (append_zero_tokens m t) = ncols t"
  by (simp add: append_zero_tokens_def)

lemma trows_append_zero_tokens:
  "trows (append_zero_tokens m t) = trows t @ replicate m (replicate (ncols t) 0)"
  by (simp add: append_zero_tokens_def)

lemma same_ncols_update:
  assumes "k < length B"
  shows "same_ncols (B[k := append_zero_tokens m (B ! k)]) = same_ncols B"
proof -
  let ?B = "B[k := append_zero_tokens m (B ! k)]"
  have n: "map ncols ?B = map ncols B"
    using assms by (intro nth_equalityI) (simp_all add: nth_list_update)
  have s: "same_ncols ts = (ts \<noteq> [] \<and> (\<forall>c \<in> set (map ncols ts). hd (map ncols ts) = c))" for ts :: "'a tensor2 list"
    by (cases ts) (auto simp: same_ncols_def)
  have "?B \<noteq> [] \<longleftrightarrow> B \<noteq> []" by simp
  then show ?thesis unfolding s n by simp
qed

lemma hd_ncols_update:
  assumes "k < length B"
  shows "ncols (hd (B[k := append_zero_tokens m (B ! k)])) = ncols (hd B)"
  using assms by (cases B; cases k) simp_all

lemma pad_sequence_update_Inl:
  assumes "k < length B" and "pad_sequence B = Inl e"
  shows "pad_sequence (B[k := append_zero_tokens m (B ! k)]) = Inl e"
  using assms(2) same_ncols_update [OF assms(1), of m]
  by (simp add: pad_sequence_eq split: if_splits)

lemma pad_sequence_update_Inr:
  assumes k: "k < length B" and Q: "pad_sequence B = Inr Q"
  shows "\<exists>Q'. pad_sequence (B[k := append_zero_tokens m (B ! k)]) = Inr Q' \<and> zero_extension Q Q'"
proof -
  let ?B = "B[k := append_zero_tokens m (B ! k)]"
  let ?d = "ncols (hd B)"
  let ?z = "replicate ?d (0::'a)"
  let ?Q' = "\<lparr>len3 = longest ?B, dim3 = ?d,
              elems3 = map (\<lambda>t. trows t @ replicate (longest ?B - length (trows t)) ?z) ?B\<rparr>"
  note q = pad_sequence_Inr [OF Q]
  have same: "same_ncols ?B" using q(1) same_ncols_update [OF k, of m] by simp
  then have p: "pad_sequence ?B = Inr ?Q'"
    by (simp add: pad_sequence_eq hd_ncols_update [OF k])
  have dk: "ncols (B ! k) = ?d"
    using q(1) k by (metis nth_mem same_ncols_def)
  have "\<exists>rs a b. elems3 Q ! j = rs @ replicate a ?z \<and> elems3 ?Q' ! j = rs @ replicate b ?z"
    if j: "j < length B" for j
  proof (cases "j = k")
    case True
    have "elems3 Q ! j = trows (B ! k) @ replicate (longest B - length (trows (B ! k))) ?z"
      using j True by (simp add: q(4))
    moreover have "elems3 ?Q' ! j = trows (B ! k) @
        replicate (m + (longest ?B - length (trows (append_zero_tokens m (B ! k))))) ?z"
      using j True by (simp add: trows_append_zero_tokens dk replicate_add)
    ultimately show ?thesis by blast
  next
    case False
    have "elems3 Q ! j = trows (B ! j) @ replicate (longest B - length (trows (B ! j))) ?z"
      using j by (simp add: q(4))
    moreover have "elems3 ?Q' ! j = trows (B ! j) @ replicate (longest ?B - length (trows (B ! j))) ?z"
      using j False by simp
    ultimately show ?thesis by blast
  qed
  then have "zero_extension Q ?Q'"
    by (simp add: zero_extension_def q(3) q(4))
  with p show ?thesis by blast
qed

lemma query_batch_zero_tokens:
  "bindE (pad_sequence (B[k := append_zero_tokens m (B ! k)])) (batch_scores ps batch_size) =
   bindE (pad_sequence B) (batch_scores ps batch_size)"
proof (cases "k < length B")
  case False
  then have "B[k := append_zero_tokens m (B ! k)] = B" by (simp add: list_update_beyond)
  then show ?thesis by simp
next
  case True
  show ?thesis
  proof (cases "pad_sequence B")
    case (Inl e)
    with pad_sequence_update_Inl [OF True Inl, of m] show ?thesis by simp
  next
    case (Inr Q)
    from pad_sequence_update_Inr [OF True Inr, of m] obtain Q' where
      "pad_sequence (B[k := append_zero_tokens m (B ! k)]) = Inr Q'" "zero_extension Q Q'"
      by blast
    with Inr show ?thesis by (simp add: batch_scores_zero_extension)
  qed
qed

lemma slice_nth: "k < length (slice xs i j) \<Longrightarrow> slice xs i j ! k = xs ! (i + k)"
proof -
  assume "k < length (slice xs i j)"
  then have "i + k < j" "i \<le> length (take j xs)" by (auto simp: slice_def)
  then show ?thesis by (simp add: slice_def)
qed


lemma slice_update_body:
  fixes f :: "'a list \<Rightarrow> 'b"
  assumes "\<And>B k. f (B[k := g (B ! k)]) = f B"
  shows "f (slice (xs[n := g (xs ! n)]) i j) = f (slice xs i j)"
proof -
  consider "slice (xs[n := g (xs ! n)]) i j = slice xs i j"
    | "i \<le> n" "n - i < length (slice xs i j)"
      "slice (xs[n := g (xs ! n)]) i j = (slice xs i j)[n - i := g (xs ! n)]"
  proof (cases "i \<le> n \<and> n - i < length (slice xs i j)")
    case True
    then have "slice (xs[n := g (xs ! n)]) i j = (slice xs i j)[n - i := g (xs ! n)]"
      unfolding slice_def by (simp add: take_update_swap drop_update_swap)
    with True that(2) show ?thesis by blast
  next
    case False
    then have "slice (xs[n := g (xs ! n)]) i j = slice xs i j"
      unfolding slice_def
      by (cases "n < i")
        (auto simp: take_update_swap drop_update_swap list_update_beyond not_less)
    with that(1) show ?thesis by blast
  qed
  then show ?thesis
  proof cases
    case 1
    then show ?thesis by simp
  next
    case 2
    have "slice xs i j ! (n - i) = xs ! n"
      using 2(1,2) by (simp add: slice_nth)
    with 2(3) assms [of "slice xs i j" "n - i"] show ?thesis by simp
  qed
qed

subsection \<open>The shape of a returned matrix\<close>

lemma pad_sequence_length: "pad_sequence ts = Inr P \<Longrightarrow> length (elems3 P) = length ts"
  by (simp add: pad_sequence_Inr(4))

lemma score_block_Inr:
  assumes "score_block Q P = Inr m"
  shows "ncols m = length (elems3 P)" and "length (trows m) = length (elems3 Q)"
    and "wf_tensor2 m"
proof -
  from assms have m: "m = \<lparr>ncols = length (elems3 P),
      trows = map (\<lambda>q. map (\<lambda>p. padded_max_sim q p) (elems3 P)) (elems3 Q)\<rparr>"
    by (simp add: score_block_eq split: if_splits)
  show "ncols m = length (elems3 P)" by (subst m) simp
  show "length (trows m) = length (elems3 Q)" by (subst m) simp
  show "wf_tensor2 m" by (subst m) (auto simp: wf_tensor2_def)
qed

lemma cat_dim1_Inr:
  assumes "cat_dim1 ts = Inr m"
  shows "ts \<noteq> []" and "ncols m = sum_list (map ncols ts)"
    and "length (trows m) = length (trows (hd ts))"
    and "\<forall>t \<in> set ts. length (trows (hd ts)) = length (trows t)"
    and "trows m = map (\<lambda>b. concat (map (\<lambda>t. trows t ! b) ts)) [0 ..< length (trows (hd ts))]"
proof -
  show ne: "ts \<noteq> []"
    using assms by (cases "ts = []") (simp_all add: cat_dim1_def)
  show eq: "\<forall>t \<in> set ts. length (trows (hd ts)) = length (trows t)"
    using assms ne
    by (cases "\<exists>t \<in> set ts. length (trows (hd ts)) \<noteq> length (trows t)")
      (simp_all add: cat_dim1_def)
  with ne assms have m: "m = \<lparr>ncols = sum_list (map ncols ts),
      trows = map (\<lambda>b. concat (map (\<lambda>t. trows t ! b) ts)) [0 ..< length (trows (hd ts))]\<rparr>"
    by (simp add: cat_dim1_def)
  show "ncols m = sum_list (map ncols ts)" by (subst m) simp
  show "length (trows m) = length (trows (hd ts))" by (subst m) simp
  show "trows m = map (\<lambda>b. concat (map (\<lambda>t. trows t ! b) ts)) [0 ..< length (trows (hd ts))]"
    by (subst m) simp
qed

lemma cat_dim1_wf:
  assumes "cat_dim1 ts = Inr m" and "\<forall>t \<in> set ts. wf_tensor2 t"
  shows "wf_tensor2 m"
proof -
  note c = cat_dim1_Inr [OF assms(1)]
  have "length (concat (map (\<lambda>t. trows t ! b) ts)) = sum_list (map ncols ts)"
    if "b < length (trows (hd ts))" for b
  proof -
    have "length (trows t ! b) = ncols t" if "t \<in> set ts" for t
      using that \<open>b < length (trows (hd ts))\<close> c(4) assms(2)
      by (metis nth_mem wf_tensor2_def)
    then have "map length (map (\<lambda>t. trows t ! b) ts) = map ncols ts" by simp
    then show ?thesis by (simp only: length_concat)
  qed
  then show ?thesis
    unfolding wf_tensor2_def c(5) c(2) by auto
qed

lemma cat_dim0_Inr:
  assumes "cat_dim0 ts = Inr m"
  shows "ts \<noteq> []" and "ncols m = ncols (hd ts)" and "trows m = concat (map trows ts)"
    and "\<forall>t \<in> set ts. ncols (hd ts) = ncols t"
proof -
  show ne: "ts \<noteq> []"
    using assms by (cases "ts = []") (simp_all add: cat_dim0_def)
  show eq: "\<forall>t \<in> set ts. ncols (hd ts) = ncols t"
    using assms ne
    by (cases "\<exists>t \<in> set ts. ncols (hd ts) \<noteq> ncols t") (simp_all add: cat_dim0_def)
  with ne assms have m: "m = \<lparr>ncols = ncols (hd ts), trows = concat (map trows ts)\<rparr>"
    by (simp add: cat_dim0_def)
  show "ncols m = ncols (hd ts)" by (subst m) simp
  show "trows m = concat (map trows ts)" by (subst m) simp
qed

lemma py_range_Inr:
  assumes "py_range n step = Inr ks" and "ks \<noteq> []"
  shows "0 < step" and "ks = range_up 0 n (nat step)"
proof -
  from assms have "step \<noteq> 0" "\<not> step < 0"
    by (auto simp: py_range_def split: if_splits)
  then show "0 < step" by simp
  with assms(1) show "ks = range_up 0 n (nat step)" by (simp add: py_range_def)
qed

lemma sum_slice_lengths:
  assumes "0 < step"
  shows "sum_list (map (\<lambda>i. length (slice xs i (i + step))) (range_up 0 (length xs) step)) =
         length xs"
proof -
  have "length (concat (map (\<lambda>i. slice xs i (i + step)) (range_up 0 (length xs) step))) =
        length (drop 0 xs)"
    by (simp only: concat_slices [OF assms])
  then show ?thesis by (simp add: length_concat comp_def)
qed


lemma batch_scores_Inr:
  assumes "batch_scores ps batch_size Q = Inr m"
  shows "0 < batch_size" and "ncols m = length ps" and "length (trows m) = length (elems3 Q)"
    and "wf_tensor2 m"
proof -
  let ?g = "\<lambda>j. bindE (pad_sequence (slice ps j (j + nat batch_size))) (score_block Q)"
  from assms obtain js blocks where js: "py_range (length ps) batch_size = Inr js"
    and blocks: "mapE ?g js = Inr blocks" and cat: "cat_dim1 blocks = Inr m"
    unfolding batch_scores_def bindE_Inr_iff by blast
  note c = cat_dim1_Inr [OF cat]
  have len: "length blocks = length js" by (rule mapE_Inr_length [OF blocks])
  with c(1) have "js \<noteq> []" by auto
  note r = py_range_Inr [OF js this]
  show "0 < batch_size" by (rule r(1))
  have block: "ncols (blocks ! k) = length (slice ps (js ! k) (js ! k + nat batch_size)) \<and>
      length (trows (blocks ! k)) = length (elems3 Q) \<and> wf_tensor2 (blocks ! k)"
    if "k < length js" for k
  proof -
    from mapE_Inr_nth [OF blocks that] obtain P where
      P: "pad_sequence (slice ps (js ! k) (js ! k + nat batch_size)) = Inr P"
      and b: "score_block Q P = Inr (blocks ! k)"
      unfolding bindE_Inr_iff by blast
    from score_block_Inr [OF b] pad_sequence_length [OF P] show ?thesis by simp
  qed
  have "map ncols blocks = map (\<lambda>j. length (slice ps j (j + nat batch_size))) js"
    using len block by (intro nth_equalityI) simp_all
  then have "sum_list (map ncols blocks) = length ps"
    using sum_slice_lengths [of "nat batch_size" ps] r by simp
  then show "ncols m = length ps" by (simp add: c(2))
  have "hd blocks = blocks ! 0" using c(1) by (simp add: hd_conv_nth)
  with block [of 0] \<open>js \<noteq> []\<close> show "length (trows m) = length (elems3 Q)"
    by (simp add: c(3))
  have "\<forall>t \<in> set blocks. wf_tensor2 t"
    using block len by (auto simp: in_set_conv_nth)
  with cat show "wf_tensor2 m" by (rule cat_dim1_wf)
qed

lemma get_multi_vector_scores_Inr:
  assumes "get_multi_vector_scores qs ps batch_size = Inr m"
  shows "qs \<noteq> []" and "ps \<noteq> []" and "0 < batch_size"
    and "length (trows m) = length qs" and "ncols m = length ps" and "wf_tensor2 m"
proof -
  let ?f = "\<lambda>i. bindE (pad_sequence (slice qs i (i + nat batch_size))) (batch_scores ps batch_size)"
  from assms show ne: "qs \<noteq> []" "ps \<noteq> []"
    by (auto simp: get_multi_vector_scores_unfold split: if_splits)
  with assms have "bindE (py_range (length qs) batch_size) (\<lambda>is. bindE (mapE ?f is) cat_dim0) =
      Inr m"
    by (simp add: get_multi_vector_scores_unfold)
  then obtain "is" blocks where "is": "py_range (length qs) batch_size = Inr is"
    and blocks: "mapE ?f is = Inr blocks" and cat: "cat_dim0 blocks = Inr m"
    unfolding bindE_Inr_iff by blast
  note c = cat_dim0_Inr [OF cat]
  have len: "length blocks = length is" by (rule mapE_Inr_length [OF blocks])
  with c(1) have "is \<noteq> []" by auto
  note r = py_range_Inr [OF "is" this]
  show "0 < batch_size" by (rule r(1))
  have block: "ncols (blocks ! k) = length ps \<and>
      length (trows (blocks ! k)) = length (slice qs (is ! k) (is ! k + nat batch_size)) \<and>
      wf_tensor2 (blocks ! k)"
    if "k < length is" for k
  proof -
    from mapE_Inr_nth [OF blocks that] obtain Q where
      Q: "pad_sequence (slice qs (is ! k) (is ! k + nat batch_size)) = Inr Q"
      and b: "batch_scores ps batch_size Q = Inr (blocks ! k)"
      unfolding bindE_Inr_iff by blast
    from batch_scores_Inr [OF b] pad_sequence_length [OF Q] show ?thesis by simp
  qed
  have "map (\<lambda>t. length (trows t)) blocks =
        map (\<lambda>i. length (slice qs i (i + nat batch_size))) is"
    using len block by (intro nth_equalityI) simp_all
  then have "sum_list (map (\<lambda>t. length (trows t)) blocks) = length qs"
    using sum_slice_lengths [of "nat batch_size" qs] r by simp
  then show "length (trows m) = length qs"
    by (simp add: c(3) length_concat comp_def)
  have "hd blocks = blocks ! 0" using c(1) by (simp add: hd_conv_nth)
  with block [of 0] \<open>is \<noteq> []\<close> show "ncols m = length ps"
    by (simp add: c(2))
  have "\<forall>t \<in> set blocks. wf_tensor2 t \<and> ncols t = length ps"
    using block len by (auto simp: in_set_conv_nth)
  then show "wf_tensor2 m"
    using \<open>ncols m = length ps\<close> unfolding wf_tensor2_def c(3) by auto
qed

lemma get_single_vector_scores_Inr:
  assumes "get_single_vector_scores qs ps = Inr m"
  shows "qs \<noteq> []" and "ps \<noteq> []"
    and "length (trows m) = length qs" and "ncols m = length ps" and "wf_tensor2 m"
proof -
  from assms show ne: "qs \<noteq> []" "ps \<noteq> []"
    by (auto simp: get_single_vector_scores_def split: if_splits)
  with assms have "bindE (stack qs) (\<lambda>Q. bindE (stack ps) (\<lambda>P. einsum_bd_cd Q P)) = Inr m"
    by (simp add: get_single_vector_scores_def)
  then obtain Q P where Q: "stack qs = Inr Q" and P: "stack ps = Inr P"
    and e: "einsum_bd_cd Q P = Inr m"
    unfolding bindE_Inr_iff by blast
  from Q have tq: "trows Q = qs" by (auto simp: stack_def split: if_splits)
  from P have tp: "trows P = ps" by (auto simp: stack_def split: if_splits)
  from e have m: "m = \<lparr>ncols = length (trows P),
      trows = map (\<lambda>q. map (\<lambda>p. bdot q p) (trows P)) (trows Q)\<rparr>"
    by (simp add: einsum_bd_cd_def split: if_splits)
  show "length (trows m) = length qs" by (subst m) (simp add: tq)
  show "ncols m = length ps" by (subst m) (simp add: tp)
  show "wf_tensor2 m" by (subst m) (auto simp: wf_tensor2_def)
qed

subsection \<open>The value of a returned matrix\<close>

lemma mapE_Inr_map: "(\<And>x. x \<in> set xs \<Longrightarrow> f x = Inr (g x)) \<Longrightarrow> mapE f xs = Inr (map g xs)"
  by (induction xs) simp_all

lemma pad_sequence_same:
  assumes "ts \<noteq> []" and "\<forall>t \<in> set ts. ncols t = d"
  shows "pad_sequence ts = Inr \<lparr>len3 = longest ts, dim3 = d, elems3 = padded_batch ts\<rparr>"
proof -
  have "hd ts \<in> set ts" using assms(1) by simp
  with assms(2) have h: "ncols (hd ts) = d" by blast
  have "same_ncols ts"
    unfolding same_ncols_def h using assms by simp
  then show ?thesis
    by (simp add: pad_sequence_eq padded_batch_def h)
qed

lemma longest_pos:
  assumes "t \<in> set ts" and "trows t \<noteq> []"
  shows "0 < longest ts"
  using longest_ge [OF assms(1)] assms(2) by (cases "trows t") simp_all

lemma padded_batch_nonempty:
  assumes "\<forall>t \<in> set ts. trows t \<noteq> []" and "p \<in> set (padded_batch ts)"
  shows "p \<noteq> []"
  using assms by (auto simp: padded_batch_def)

lemma length_padded_batch [simp]: "length (padded_batch ts) = length ts"
  by (simp add: padded_batch_def)

lemma set_slice: "set (slice xs i j) \<subseteq> set xs"
  unfolding slice_def by (meson set_drop_subset set_take_subset subset_trans)


lemma score_block_value:
  assumes "broadcastable (dim3 Q) d" and "ts \<noteq> []" and "\<forall>t \<in> set ts. ncols t = d"
    and "\<forall>t \<in> set ts. trows t \<noteq> []"
  shows "bindE (pad_sequence ts) (score_block Q) =
         Inr \<lparr>ncols = length ts,
              trows = map (\<lambda>q. map (\<lambda>p. padded_max_sim q p) (padded_batch ts)) (elems3 Q)\<rparr>"
proof -
  have "hd ts \<in> set ts" using assms(2) by simp
  then have "0 < longest ts" using assms(4) longest_pos by blast
  then show ?thesis
    using assms(1) by (simp add: pad_sequence_same [OF assms(2,3)] score_block_eq)
qed

lemma cat_dim1_value:
  assumes "js \<noteq> []"
  shows "cat_dim1 (map (\<lambda>j. \<lparr>ncols = c j, trows = map (\<lambda>q. r j q) Q\<rparr>) js) =
         Inr \<lparr>ncols = sum_list (map c js), trows = map (\<lambda>q. concat (map (\<lambda>j. r j q) js)) Q\<rparr>"
proof -
  let ?ts = "map (\<lambda>j. \<lparr>ncols = c j, trows = map (\<lambda>q. r j q) Q\<rparr>) js"
  have ne: "?ts \<noteq> []" using assms by simp
  have hd: "length (trows (hd ?ts)) = length Q"
    using assms by (cases js) simp_all
  have all: "\<not> (\<exists>t \<in> set ?ts. length (trows (hd ?ts)) \<noteq> length (trows t))"
    unfolding hd by auto
  have rows: "map (\<lambda>b. concat (map (\<lambda>t. trows t ! b) ?ts)) [0 ..< length Q] =
              map (\<lambda>q. concat (map (\<lambda>j. r j q) js)) Q"
    by (intro nth_equalityI) (simp_all add: comp_def)
  have "cat_dim1 ?ts = Inr \<lparr>ncols = sum_list (map ncols ?ts),
      trows = map (\<lambda>b. concat (map (\<lambda>t. trows t ! b) ?ts)) [0 ..< length (trows (hd ?ts))]\<rparr>"
    unfolding cat_dim1_def using ne all by (simp only: if_False)
  then show ?thesis
    unfolding hd rows by (simp add: comp_def)
qed

lemma batch_scores_value:
  assumes bs: "0 < batch_size" and ne: "ps \<noteq> []" and d: "\<forall>p \<in> set ps. ncols p = d"
    and tok: "\<forall>p \<in> set ps. trows p \<noteq> []" and bc: "broadcastable (dim3 Q) d"
  shows "batch_scores ps batch_size Q =
         Inr \<lparr>ncols = length ps, trows = map (score_row ps (nat batch_size)) (elems3 Q)\<rparr>"
proof -
  let ?n = "nat batch_size"
  let ?js = "range_up 0 (length ps) ?n"
  let ?S = "\<lambda>j. slice ps j (j + ?n)"
  let ?blk = "\<lambda>j. \<lparr>ncols = length (?S j),
      trows = map (\<lambda>q. map (\<lambda>p. padded_max_sim q p) (padded_batch (?S j))) (elems3 Q)\<rparr>"
  have n: "0 < ?n" using bs by simp
  have r: "py_range (length ps) batch_size = Inr ?js"
    using bs by (simp add: py_range_def)
  have js: "?js \<noteq> []" using ne n by (simp add: range_up_nonempty)
  have "bindE (pad_sequence (?S j)) (score_block Q) = Inr (?blk j)" if "j \<in> set ?js" for j
  proof (rule score_block_value [OF bc])
    from range_up_bound [OF that] show "?S j \<noteq> []" using n by (simp add: slice_nonempty)
    show "\<forall>t \<in> set (?S j). ncols t = d" using d set_slice [of ps j "j + ?n"] by blast
    show "\<forall>t \<in> set (?S j). trows t \<noteq> []" using tok set_slice [of ps j "j + ?n"] by blast
  qed
  then have "mapE (\<lambda>j. bindE (pad_sequence (?S j)) (score_block Q)) ?js = Inr (map ?blk ?js)"
    by (rule mapE_Inr_map)
  then have "batch_scores ps batch_size Q = cat_dim1 (map ?blk ?js)"
    by (simp add: batch_scores_def r)
  also have "\<dots> = Inr \<lparr>ncols = sum_list (map (\<lambda>j. length (?S j)) ?js),
      trows = map (\<lambda>q. concat (map (\<lambda>j. map (\<lambda>p. padded_max_sim q p) (padded_batch (?S j)))
                ?js)) (elems3 Q)\<rparr>"
    by (rule cat_dim1_value [OF js])
  finally show ?thesis
    by (simp add: sum_slice_lengths [OF n] score_row_def)
qed


lemma score_row_pad:
  assumes "\<forall>p \<in> set ps. trows p \<noteq> []"
  shows "score_row ps step (q @ replicate k (replicate d 0)) = score_row ps step q"
proof -
  have "padded_max_sim (q @ replicate k (replicate d 0)) p = padded_max_sim q p"
    if "p \<in> set (padded_batch (slice ps j (j + step)))" for p j
  proof (rule padded_max_sim_pad)
    have "\<forall>t \<in> set (slice ps j (j + step)). trows t \<noteq> []"
      using assms set_slice [of ps j "j + step"] by blast
    then show "p \<noteq> []" using that by (rule padded_batch_nonempty)
  qed
  then show ?thesis by (simp add: score_row_def cong: map_cong)
qed

lemma cat_dim0_value:
  assumes "ts \<noteq> []" and "\<forall>t \<in> set ts. ncols t = c"
  shows "cat_dim0 ts = Inr \<lparr>ncols = c, trows = concat (map trows ts)\<rparr>"
proof -
  have "hd ts \<in> set ts" using assms(1) by simp
  with assms(2) have h: "ncols (hd ts) = c" by blast
  have "\<not> (\<exists>t \<in> set ts. ncols (hd ts) \<noteq> ncols t)"
    unfolding h using assms(2) by simp
  then show ?thesis
    unfolding cat_dim0_def using assms(1) h by (simp only: if_False)
qed

lemma multi_vector_scores_value:
  assumes bs: "0 < batch_size" and nq: "qs \<noteq> []" and np: "ps \<noteq> []"
    and dq: "\<forall>q \<in> set qs. ncols q = d" and dp: "\<forall>p \<in> set ps. ncols p = d'"
    and bc: "broadcastable d d'" and tok: "\<forall>p \<in> set ps. trows p \<noteq> []"
  shows "get_multi_vector_scores qs ps batch_size =
         Inr \<lparr>ncols = length ps,
              trows = map (\<lambda>q. score_row ps (nat batch_size) (trows q)) qs\<rparr>"
proof -
  let ?n = "nat batch_size"
  let ?is = "range_up 0 (length qs) ?n"
  let ?S = "\<lambda>i. slice qs i (i + ?n)"
  let ?row = "\<lambda>q. score_row ps ?n (trows q)"
  let ?blk = "\<lambda>i. \<lparr>ncols = length ps, trows = map ?row (?S i)\<rparr>"
  have n: "0 < ?n" using bs by simp
  have r: "py_range (length qs) batch_size = Inr ?is"
    using bs by (simp add: py_range_def)
  have "is": "?is \<noteq> []" using nq n by (simp add: range_up_nonempty)
  have "bindE (pad_sequence (?S i)) (batch_scores ps batch_size) = Inr (?blk i)"
    if "i \<in> set ?is" for i
  proof -
    from range_up_bound [OF that] have S: "?S i \<noteq> []" using n by (simp add: slice_nonempty)
    have Sd: "\<forall>t \<in> set (?S i). ncols t = d" using dq set_slice [of qs i "i + ?n"] by blast
    let ?Q = "\<lparr>len3 = longest (?S i), dim3 = d, elems3 = padded_batch (?S i)\<rparr>"
    have "hd (?S i) \<in> set (?S i)" using S by simp
    with Sd have h: "ncols (hd (?S i)) = d" by blast
    have "map (score_row ps ?n) (padded_batch (?S i)) = map ?row (?S i)"
      unfolding padded_batch_def by (simp add: score_row_pad [OF tok])
    moreover have "batch_scores ps batch_size ?Q =
        Inr \<lparr>ncols = length ps, trows = map (score_row ps ?n) (elems3 ?Q)\<rparr>"
      by (rule batch_scores_value [OF bs np dp tok]) (simp add: bc)
    ultimately show ?thesis
      by (simp add: pad_sequence_same [OF S Sd])
  qed
  then have "mapE (\<lambda>i. bindE (pad_sequence (?S i)) (batch_scores ps batch_size)) ?is =
             Inr (map ?blk ?is)"
    by (rule mapE_Inr_map)
  then have "get_multi_vector_scores qs ps batch_size = cat_dim0 (map ?blk ?is)"
    using nq np by (simp add: get_multi_vector_scores_unfold r)
  also have "\<dots> = Inr \<lparr>ncols = length ps, trows = concat (map trows (map ?blk ?is))\<rparr>"
    by (rule cat_dim0_value) (use "is" in simp_all)
  also have "concat (map trows (map ?blk ?is)) = map ?row (concat (map ?S ?is))"
    by (simp add: comp_def map_concat)
  also have "concat (map ?S ?is) = qs"
    using concat_slices [OF n, of qs 0] by simp
  finally show ?thesis .
qed

subsection \<open>Passages of equal length\<close>

text \<open>
  When all passages have the same number of tokens, no passage is padded: the scores are
  the MaxSim values and do not depend on the batch size.
\<close>

lemma fold_max_le: "(\<And>x. x \<in> set xs \<Longrightarrow> x \<le> b) \<Longrightarrow> a \<le> b \<Longrightarrow> fold max xs (a::nat) \<le> b"
  by (induction xs arbitrary: a) simp_all

lemma longest_same:
  assumes "ts \<noteq> []" and "\<forall>t \<in> set ts. length (trows t) = L"
  shows "longest ts = L"
proof (rule antisym)
  show "longest ts \<le> L"
    unfolding longest_def using assms(2) by (intro fold_max_le) auto
  have "hd ts \<in> set ts" using assms(1) by simp
  from longest_ge [OF this] assms(2) this show "L \<le> longest ts" by auto
qed

lemma padded_batch_same:
  assumes "ts \<noteq> []" and "\<forall>t \<in> set ts. length (trows t) = L"
  shows "padded_batch ts = map trows ts"
  using assms(2) by (simp add: padded_batch_def longest_same [OF assms])

lemma max_list_Max: "xs \<noteq> [] \<Longrightarrow> max_list xs = Max (set xs)"
proof (cases xs)
  case Nil
  then show "xs \<noteq> [] \<Longrightarrow> ?thesis" by simp
next
  case (Cons x ys)
  then show ?thesis by (simp only: max_list.simps Max.set_eq_fold)
qed

lemma padded_max_sim_max_sim:
  assumes "\<forall>qt \<in> set q. length qt = d" and "\<forall>pt \<in> set p. length pt = d" and "p \<noteq> []"
  shows "padded_max_sim q p = max_sim q p"
proof -
  have "map (\<lambda>pt. bdot qt pt) p = map (\<lambda>pt. dot qt pt) p" if "qt \<in> set q" for qt
    using that assms(1,2) by (simp add: bdot_def)
  then have "max_list (map (\<lambda>pt. bdot qt pt) p) = Max (set (map (\<lambda>pt. dot qt pt) p))"
    if "qt \<in> set q" for qt
    using that assms(3) by (simp add: max_list_Max)
  then show ?thesis
    by (simp add: padded_max_sim_def max_sim_def cong: map_cong)
qed

lemma score_row_same:
  assumes n: "0 < n" and L: "\<forall>p \<in> set ps. length (trows p) = L"
  shows "score_row ps n q = map (\<lambda>p. padded_max_sim q (trows p)) ps"
proof -
  let ?js = "range_up 0 (length ps) n"
  have "padded_batch (slice ps j (j + n)) = map trows (slice ps j (j + n))" if "j \<in> set ?js" for j
  proof (rule padded_batch_same)
    from range_up_bound [OF that] show "slice ps j (j + n) \<noteq> []"
      using n by (simp add: slice_nonempty)
    show "\<forall>t \<in> set (slice ps j (j + n)). length (trows t) = L"
      using L set_slice [of ps j "j + n"] by blast
  qed
  then have "score_row ps n q =
      concat (map (\<lambda>j. map (\<lambda>p. padded_max_sim q (trows p)) (slice ps j (j + n))) ?js)"
    by (simp add: score_row_def comp_def cong: map_cong)
  also have "\<dots> = map (\<lambda>p. padded_max_sim q (trows p)) (concat (map (\<lambda>j. slice ps j (j + n)) ?js))"
    by (simp add: map_concat comp_def)
  also have "concat (map (\<lambda>j. slice ps j (j + n)) ?js) = ps"
    using concat_slices [OF n, of ps 0] by simp
  finally show ?thesis .
qed

lemma multi_vector_scores_max_sim:
  assumes bs: "0 < batch_size" and nq: "qs \<noteq> []" and np: "ps \<noteq> []"
    and wq: "\<forall>q \<in> set qs. ncols q = d \<and> wf_tensor2 q"
    and wp: "\<forall>p \<in> set ps. ncols p = d \<and> wf_tensor2 p"
    and L: "\<forall>p \<in> set ps. length (trows p) = L" and pos: "0 < L"
  shows "get_multi_vector_scores qs ps batch_size =
         Inr \<lparr>ncols = length ps,
              trows = map (\<lambda>q. map (\<lambda>p. max_sim (trows q) (trows p)) ps) qs\<rparr>"
proof -
  have tok: "\<forall>p \<in> set ps. trows p \<noteq> []" using L pos by auto
  have "score_row ps (nat batch_size) (trows q) = map (\<lambda>p. max_sim (trows q) (trows p)) ps"
    if "q \<in> set qs" for q
  proof -
    have "padded_max_sim (trows q) (trows p) = max_sim (trows q) (trows p)" if "p \<in> set ps" for p
    proof (rule padded_max_sim_max_sim)
      show "\<forall>qt \<in> set (trows q). length qt = d"
        using wq \<open>q \<in> set qs\<close> by (auto simp: wf_tensor2_def)
      show "\<forall>pt \<in> set (trows p). length pt = d"
        using wp that by (auto simp: wf_tensor2_def)
      show "trows p \<noteq> []" using tok that by blast
    qed
    then show ?thesis
      using bs by (simp add: score_row_same [OF _ L])
  qed
  moreover have "get_multi_vector_scores qs ps batch_size =
      Inr \<lparr>ncols = length ps, trows = map (\<lambda>q. score_row ps (nat batch_size) (trows q)) qs\<rparr>"
    by (rule multi_vector_scores_value [OF bs nq np _ _ _ tok, of d d])
      (use wq wp in \<open>simp_all add: broadcastable_def\<close>)
  ultimately show ?thesis by simp
qed

lemma multi_vector_scores_batch_size:
  assumes "0 < batch_size" and "0 < batch_size'" and "qs \<noteq> []" and "ps \<noteq> []"
    and "\<forall>q \<in> set qs. ncols q = d \<and> wf_tensor2 q"
    and "\<forall>p \<in> set ps. ncols p = d \<and> wf_tensor2 p"
    and "\<forall>p \<in> set ps. length (trows p) = L" and "0 < L"
  shows "get_multi_vector_scores qs ps batch_size = get_multi_vector_scores qs ps batch_size'"
  using multi_vector_scores_max_sim [OF assms(1) assms(3-8)]
    multi_vector_scores_max_sim [OF assms(2) assms(3-8)] by simp

subsection \<open>Single-vector scores\<close>

lemma stack_same_length:
  assumes "ts \<noteq> []" and "\<forall>t \<in> set ts. length t = d"
  shows "stack ts = Inr \<lparr>ncols = d, trows = ts\<rparr>"
  using assms by (cases ts) (auto simp: stack_def)

subsection \<open>Errors, the evaluator and the renaming of metrics\<close>

lemma bindE_Inl_iff: "bindE m f = Inl e \<longleftrightarrow> m = Inl e \<or> (\<exists>x. m = Inr x \<and> f x = Inl e)"
  by (cases m) simp_all

lemma mapE_Inl: "mapE f xs = Inl e \<Longrightarrow> \<exists>x \<in> set xs. f x = Inl e"
  by (induction xs) (auto simp: bindE_Inl_iff)

lemma py_range_Inl: "py_range n step = Inl e \<longleftrightarrow> step = 0 \<and> e = ValueError"
  by (auto simp: py_range_def)

lemma pad_sequence_Inl: "pad_sequence ts = Inl e \<Longrightarrow> e = RuntimeError"
  by (simp add: pad_sequence_eq split: if_splits)

lemma score_block_Inl: "score_block Q P = Inl e \<Longrightarrow> e = RuntimeError \<or> e = IndexError"
  by (simp add: score_block_eq split: if_splits)

lemma cat_dim1_Inl: "cat_dim1 ts = Inl e \<Longrightarrow> e = RuntimeError"
  unfolding cat_dim1_def by (metis Inl_inject Inl_Inr_False)

lemma cat_dim0_Inl: "cat_dim0 ts = Inl e \<Longrightarrow> e = RuntimeError"
  unfolding cat_dim0_def by (metis Inl_inject Inl_Inr_False)

lemma stack_Inl: "stack ts = Inl e \<Longrightarrow> e = RuntimeError"
  unfolding stack_def by (metis Inl_inject Inl_Inr_False)

lemma einsum_bd_cd_Inl: "einsum_bd_cd Q P = Inl e \<Longrightarrow> e = RuntimeError"
  unfolding einsum_bd_cd_def by (metis Inl_inject Inl_Inr_False)

lemma batch_scores_Inl:
  fixes Q :: "'a::linordered_idom tensor3"
  assumes "batch_scores ps batch_size Q = Inl e"
  shows "(e = ValueError \<and> batch_size = 0) \<or> e = RuntimeError \<or> e = IndexError"
proof -
  let ?g = "\<lambda>j. bindE (pad_sequence (slice ps j (j + nat batch_size))) (score_block Q)"
  from assms have "py_range (length ps) batch_size = Inl e \<or> (\<exists>js. mapE ?g js = Inl e) \<or>
      (\<exists>blocks :: 'a tensor2 list. cat_dim1 blocks = Inl e)"
    unfolding batch_scores_def bindE_Inl_iff by auto
  then consider "py_range (length ps) batch_size = Inl e"
    | js where "mapE ?g js = Inl e"
    | blocks :: "'a tensor2 list" where "cat_dim1 blocks = Inl e"
    by blast
  then show ?thesis
  proof cases
    case 1
    then show ?thesis by (simp add: py_range_Inl)
  next
    case 2
    then obtain j where "?g j = Inl e" using mapE_Inl by blast
    then show ?thesis
      unfolding bindE_Inl_iff using pad_sequence_Inl score_block_Inl by blast
  next
    case 3
    then show ?thesis using cat_dim1_Inl by blast
  qed
qed

lemma get_multi_vector_scores_Inl:
  fixes qs :: "'a::linordered_idom tensor2 list"
  assumes "get_multi_vector_scores qs ps batch_size = Inl e"
    and "qs \<noteq> []" and "ps \<noteq> []" and "batch_size \<noteq> 0"
  shows "e = RuntimeError \<or> e = IndexError"
proof -
  let ?f = "\<lambda>i. bindE (pad_sequence (slice qs i (i + nat batch_size))) (batch_scores ps batch_size)"
  from assms have "bindE (py_range (length qs) batch_size) (\<lambda>is. bindE (mapE ?f is) cat_dim0) =
      Inl e"
    by (simp add: get_multi_vector_scores_unfold)
  then have "py_range (length qs) batch_size = Inl e \<or> (\<exists>is. mapE ?f is = Inl e) \<or>
      (\<exists>blocks :: 'a tensor2 list. cat_dim0 blocks = Inl e)"
    unfolding bindE_Inl_iff by auto
  then consider "py_range (length qs) batch_size = Inl e"
    | "is" where "mapE ?f is = Inl e"
    | blocks :: "'a tensor2 list" where "cat_dim0 blocks = Inl e"
    by blast
  then show ?thesis
  proof cases
    case 1
    with assms(4) show ?thesis by (simp add: py_range_Inl)
  next
    case 2
    then obtain i where "?f i = Inl e" using mapE_Inl by blast
    then show ?thesis
      unfolding bindE_Inl_iff using pad_sequence_Inl batch_scores_Inl assms(4) by blast
  next
    case 3
    then show ?thesis using cat_dim0_Inl by blast
  qed
qed

lemma get_single_vector_scores_Inl:
  assumes "get_single_vector_scores qs ps = Inl e" and "qs \<noteq> []" and "ps \<noteq> []"
  shows "e = RuntimeError"
proof -
  from assms have "bindE (stack qs) (\<lambda>Q. bindE (stack ps) (\<lambda>P. einsum_bd_cd Q P)) = Inl e"
    by (simp add: get_single_vector_scores_def)
  then show ?thesis
    unfolding bindE_Inl_iff using stack_Inl einsum_bd_cd_Inl by blast
qed

lemma multi_vector_scores_returns:
  assumes "0 < batch_size" and "qs \<noteq> []" and "ps \<noteq> []"
    and "\<forall>q \<in> set qs. ncols q = d" and "\<forall>p \<in> set ps. ncols p = d \<and> trows p \<noteq> []"
  shows "\<exists>m. get_multi_vector_scores qs ps batch_size = Inr m"
proof -
  have "broadcastable d d" by (simp add: broadcastable_def)
  with assms show ?thesis
    using multi_vector_scores_value [of batch_size qs ps d d] by simp
qed

lemma single_vector_scores_returns:
  assumes "qs \<noteq> []" and "ps \<noteq> []"
    and "\<forall>q \<in> set qs. length q = d" and "\<forall>p \<in> set ps. length p = d"
  shows "\<exists>m. get_single_vector_scores qs ps = Inr m"
  using assms stack_same_length [of qs d] stack_same_length [of ps d]
  by (simp add: get_single_vector_scores_def einsum_bd_cd_def broadcastable_def)

lemma selected_scores_Inr:
  assumes "selected_scores multi qs ps = Inr m"
  shows "length (trows m) = len qs" and "ncols m = len ps" and "0 < len qs" and "0 < len ps"
proof -
  have "length (trows m) = len qs \<and> ncols m = len ps \<and> 0 < len qs \<and> 0 < len ps"
  proof (cases qs; cases ps)
    fix q p assume qp: "qs = Vectors q" "ps = Vectors p"
    show ?thesis
    proof (cases multi)
      case True
      with assms qp show ?thesis
        by (simp add: selected_scores_def wrong_rank_def split: if_splits)
    next
      case False
      with assms qp have "get_single_vector_scores q p = Inr m"
        by (simp add: selected_scores_def)
      from get_single_vector_scores_Inr [OF this] qp show ?thesis by (simp add: len_def)
    qed
  next
    fix q p assume qp: "qs = Token_matrices q" "ps = Token_matrices p"
    show ?thesis
    proof (cases multi)
      case False
      with assms qp show ?thesis
        by (simp add: selected_scores_def wrong_rank_def split: if_splits)
    next
      case True
      with assms qp have "get_multi_vector_scores q p default_batch_size = Inr m"
        by (simp add: selected_scores_def)
      from get_multi_vector_scores_Inr [OF this] qp show ?thesis by (simp add: len_def)
    qed
  next
    fix q p assume "qs = Vectors q" "ps = Token_matrices p"
    with assms show ?thesis
      by (simp add: selected_scores_def wrong_rank_def split: if_splits)
  next
    fix q p assume "qs = Token_matrices q" "ps = Vectors p"
    with assms show ?thesis
      by (simp add: selected_scores_def wrong_rank_def split: if_splits)
  qed
  then show "length (trows m) = len qs" and "ncols m = len ps" and "0 < len qs" and "0 < len ps"
    by simp_all
qed

lemma get_single_vector_scores_empty:
  "qs = [] \<or> ps = [] \<Longrightarrow> get_single_vector_scores qs ps = Inl ValueError"
  by (auto simp: get_single_vector_scores_def)

lemma get_multi_vector_scores_empty:
  "qs = [] \<or> ps = [] \<or> batch_size = 0 \<Longrightarrow>
   get_multi_vector_scores qs ps batch_size = Inl ValueError"
  by (auto simp: get_multi_vector_scores_unfold py_range_def)

lemma selected_scores_Inl:
  assumes "selected_scores multi qs ps = Inl e"
  shows "e = ValueError \<or> e = RuntimeError \<or> e = IndexError"
proof -
  have w: "e = ValueError \<or> e = RuntimeError" if "wrong_rank qs ps = (Inl e :: error + 'a tensor2)"
    using that by (auto simp: wrong_rank_def split: if_splits)
  have s: "e = ValueError \<or> e = RuntimeError"
    if "get_single_vector_scores q p = Inl e" for q p :: "'a list list"
    using that get_single_vector_scores_Inl [of q p e] get_single_vector_scores_empty [of q p]
    by (cases "q = [] \<or> p = []") auto
  have m: "e = ValueError \<or> e = RuntimeError \<or> e = IndexError"
    if "get_multi_vector_scores q p default_batch_size = Inl e" for q p :: "'a tensor2 list"
    using that get_multi_vector_scores_Inl [of q p default_batch_size e]
      get_multi_vector_scores_empty [of q p default_batch_size]
    by (cases "q = [] \<or> p = []") (auto simp: default_batch_size_def)
  from assms show ?thesis
    unfolding selected_scores_def using w s m
    by (auto split: if_splits embeddings.splits)
qed

lemma evaluate_eq:
  "evaluate w qs ps =
     (case selected_scores (is_multi_vector (self w)) qs ps of
        Inl e \<Rightarrow> (Inl e, w)
      | Inr scores \<Rightarrow>
          (Inr scores,
           w\<lparr>log := log w @
               [(length (filter (\<lambda>(a, b). a = b)
                   (zip (map argmax (trows scores)) [0 ..< length (trows scores)])),
                 length (trows scores))]\<rparr>))"
proof (cases "selected_scores (is_multi_vector (self w)) qs ps")
  case (Inl e)
  then show ?thesis by (simp add: evaluate_def selected_scores_def)
next
  case (Inr scores)
  from selected_scores_Inr [OF Inr] Inr show ?thesis
    by (simp add: evaluate_def selected_scores_def Let_def)
qed





lemma at_key_no_at: "\<not> has_at k \<Longrightarrow> at_key prefix k = Inl IndexError"
  by (simp add: at_key_def has_at_def Let_def)







lemmas multi_eval =
  get_multi_vector_scores_def py_range_def range_up.simps slice_def pad_sequence_def
  einsum_bnd_csd_def broadcastable_def max_dim3_def sum_dim2_def cat_dim1_def cat_dim0_def
  bdot_def dot_def default_batch_size_def one_token_query_def short_passage_def
  long_passage_def Let_def

subsection \<open>An example with two batches of queries and two batches of passages\<close>

text \<open>
  Three queries of two, one and no token and three passages of one, two and one token, of
  dimension 2, with batch size 2: the first passage is padded with one zero vector, whose
  dot products 0 do not exceed the dot products 5, 9 and 2 of its own token; the second
  query is padded with one zero token, which adds 0; the query without tokens has the
  score 0 everywhere.
\<close>

lemma multi_vector_scores_example:
  "get_multi_vector_scores
     [\<lparr>ncols = 2, trows = [[1, 2], [3, 4 :: int]]\<rparr>, \<lparr>ncols = 2, trows = [[1, 1]]\<rparr>,
      \<lparr>ncols = 2, trows = []\<rparr>]
     [\<lparr>ncols = 2, trows = [[- 1, 3]]\<rparr>, \<lparr>ncols = 2, trows = [[- 1, 5], [- 1, 7]]\<rparr>,
      \<lparr>ncols = 2, trows = [[2, 2]]\<rparr>] 2 =
   Inr \<lparr>ncols = 3, trows = [[14, 38, 20], [2, 6, 4], [0, 0, 0]]\<rparr>"
  by (simp add: multi_eval numeral_2_eq_2)

section \<open>The claims\<close>

text \<open>
  C1: the score at position \<open>(b, c)\<close> is claimed to be the MaxSim value of query \<open>b\<close> and
  passage \<open>c\<close>. With the default batch size, a query of one token and two passages of one
  and of two tokens, all with dot product \<open>-1\<close>, the code returns 0 for the shorter passage,
  whose MaxSim value is \<open>-1\<close>: the zero vector that pads the shorter passage takes part in
  the maximum.
\<close>

theorem multi_vector_scores_padding_raises_maximum:
  "get_multi_vector_scores [one_token_query] [short_passage, long_passage] default_batch_size =
     Inr \<lparr>ncols = 2, trows = [[0, - 1]]\<rparr> \<and>
   max_sim (trows one_token_query) (trows short_passage) = - 1"
  by (simp add: multi_eval max_sim_def)

text \<open>
  C2: the result is claimed to be the same for any two positive batch sizes. For the
  embeddings of C1, the batch sizes 1 and 2 give different scores for the shorter passage:
  with batch size 1 it is alone in its batch and is not padded.
\<close>

theorem multi_vector_scores_depend_on_batch_size:
  "get_multi_vector_scores [one_token_query] [short_passage, long_passage] 1 =
     Inr \<lparr>ncols = 2, trows = [[- 1, - 1]]\<rparr> \<and>
   get_multi_vector_scores [one_token_query] [short_passage, long_passage] 2 =
     Inr \<lparr>ncols = 2, trows = [[0, - 1]]\<rparr>"
  by (simp add: multi_eval)

text \<open>
  C3: for non-empty lists of query vectors and passage vectors that all have the same
  dimension, \<open>get_single_vector_scores\<close> returns a matrix whose entry \<open>(b, c)\<close> is the dot
  product of \<open>qs[b]\<close> with \<open>ps[c]\<close>.
\<close>

theorem single_vector_scores_dot:
  assumes "qs \<noteq> []" and "ps \<noteq> []"
    and "\<forall>q \<in> set qs. length q = d" and "\<forall>p \<in> set ps. length p = d"
  shows "\<exists>m. get_single_vector_scores qs ps = Inr m \<and>
           (\<forall>b < length qs. \<forall>c < length ps. trows m ! b ! c = dot (qs ! b) (ps ! c))"
proof -
  have "get_single_vector_scores qs ps =
          Inr \<lparr>ncols = length ps, trows = map (\<lambda>q. map (\<lambda>p. bdot q p) ps) qs\<rparr>"
    using assms stack_same_length [of qs d] stack_same_length [of ps d]
    by (simp add: get_single_vector_scores_def bindE_def einsum_bd_cd_def broadcastable_def)
  moreover have "bdot (qs ! b) (ps ! c) = dot (qs ! b) (ps ! c)"
    if "b < length qs" "c < length ps" for b c
    using that assms(3,4) by (simp add: bdot_def)
  ultimately show ?thesis by simp
qed

theorem single_vector_scores_dot_witness:
  "\<exists>m. get_single_vector_scores [[1, 2], [3, 4 :: int]] [[5, 6], [7, 8], [0, - 1]] = Inr m \<and>
     trows m ! 1 ! 2 = - 4 \<and> trows m ! 0 ! 1 = 23"
proof -
  let ?qs = "[[1, 2], [3, 4 :: int]]" and ?ps = "[[5, 6], [7, 8], [0, - 1 :: int]]"
  have "?qs \<noteq> []" "?ps \<noteq> []" "\<forall>q \<in> set ?qs. length q = 2" "\<forall>p \<in> set ?ps. length p = 2"
    by simp_all
  from single_vector_scores_dot [OF this] obtain m where
    m: "get_single_vector_scores ?qs ?ps = Inr m"
    and e: "\<forall>b < length ?qs. \<forall>c < length ?ps. trows m ! b ! c = dot (?qs ! b) (?ps ! c)"
    by blast
  from e have "trows m ! 1 ! 2 = dot (?qs ! 1) (?ps ! 2)" "trows m ! 0 ! 1 = dot (?qs ! 0) (?ps ! 1)"
    by simp_all
  then have "trows m ! 1 ! 2 = - 4 \<and> trows m ! 0 ! 1 = 23"
    by (simp add: dot_def)
  with m show ?thesis by blast
qed

text \<open>
  C4: a matrix returned by \<open>get_single_vector_scores\<close> or by \<open>get_multi_vector_scores\<close>
  has exactly \<open>len(qs)\<close> rows of \<open>len(ps)\<close> entries each; and a matrix is returned for
  non-empty lists of vectors of one dimension, and for non-empty lists of token matrices of
  one dimension whose passages each have a token, with a positive batch size.
\<close>

theorem score_matrix_shape:
  "(get_single_vector_scores vqs vps = Inr m \<longrightarrow> has_shape m (length vqs) (length vps)) \<and>
   (get_multi_vector_scores qs ps batch_size = Inr m' \<longrightarrow>
      has_shape m' (length qs) (length ps)) \<and>
   (vqs \<noteq> [] \<and> vps \<noteq> [] \<and> (\<forall>q \<in> set vqs. length q = d) \<and> (\<forall>p \<in> set vps. length p = d) \<longrightarrow>
      (\<exists>m. get_single_vector_scores vqs vps = Inr m)) \<and>
   (qs \<noteq> [] \<and> ps \<noteq> [] \<and> 0 < batch_size \<and> (\<forall>q \<in> set qs. ncols q = d') \<and>
    (\<forall>p \<in> set ps. ncols p = d' \<and> trows p \<noteq> []) \<longrightarrow>
      (\<exists>m. get_multi_vector_scores qs ps batch_size = Inr m))"
proof (intro conjI impI)
  assume "get_single_vector_scores vqs vps = Inr m"
  from get_single_vector_scores_Inr(3-5) [OF this]
  show "has_shape m (length vqs) (length vps)" by (simp add: has_shape_def)
next
  assume "get_multi_vector_scores qs ps batch_size = Inr m'"
  from get_multi_vector_scores_Inr(4-6) [OF this]
  show "has_shape m' (length qs) (length ps)" by (simp add: has_shape_def)
next
  assume "vqs \<noteq> [] \<and> vps \<noteq> [] \<and> (\<forall>q \<in> set vqs. length q = d) \<and> (\<forall>p \<in> set vps. length p = d)"
  then show "\<exists>m. get_single_vector_scores vqs vps = Inr m"
    using single_vector_scores_returns by blast
next
  assume "qs \<noteq> [] \<and> ps \<noteq> [] \<and> 0 < batch_size \<and> (\<forall>q \<in> set qs. ncols q = d') \<and>
    (\<forall>p \<in> set ps. ncols p = d' \<and> trows p \<noteq> [])"
  then show "\<exists>m. get_multi_vector_scores qs ps batch_size = Inr m"
    using multi_vector_scores_returns by blast
qed

theorem score_matrix_shape_witness:
  "get_single_vector_scores [[1, 2], [1, 0 :: int]] [[5, 3], [3, 7]] =
     Inr \<lparr>ncols = 2, trows = [[11, 17], [5, 3]]\<rparr> \<and>
   has_shape \<lparr>ncols = 2, trows = [[11 :: int, 17], [5, 3]]\<rparr> 2 2 \<and>
   get_multi_vector_scores [one_token_query] [short_passage, long_passage] 128 =
     Inr \<lparr>ncols = 2, trows = [[0, - 1]]\<rparr> \<and>
   has_shape \<lparr>ncols = 2, trows = [[0, - 1 :: int]]\<rparr> 1 2"
proof -
  let ?vqs = "[[1, 2], [1, 0 :: int]]" and ?vps = "[[5, 3], [3, 7 :: int]]"
  let ?qs = "[one_token_query]" and ?ps = "[short_passage, long_passage]"
  let ?m = "\<lparr>ncols = 2, trows = [[11 :: int, 17], [5, 3]]\<rparr>"
  let ?m' = "\<lparr>ncols = 2, trows = [[0, - 1 :: int]]\<rparr>"
  have s: "get_single_vector_scores ?vqs ?vps = Inr ?m"
    by (simp add: get_single_vector_scores_def stack_def einsum_bd_cd_def broadcastable_def
        bdot_def dot_def)
  have m: "get_multi_vector_scores ?qs ?ps 128 = Inr ?m'"
    by (simp add: multi_eval)
  have h1: "?vqs \<noteq> [] \<and> ?vps \<noteq> [] \<and> (\<forall>q \<in> set ?vqs. length q = 2) \<and>
      (\<forall>p \<in> set ?vps. length p = 2)"
    by simp
  have h2: "?qs \<noteq> [] \<and> ?ps \<noteq> [] \<and> (0 :: int) < 128 \<and> (\<forall>q \<in> set ?qs. ncols q = 1) \<and>
      (\<forall>p \<in> set ?ps. ncols p = 1 \<and> trows p \<noteq> [])"
    by (simp add: one_token_query_def short_passage_def long_passage_def)
  have "has_shape ?m (length ?vqs) (length ?vps) \<and> has_shape ?m' (length ?qs) (length ?ps)"
    using score_matrix_shape [of ?vqs ?vps ?m ?qs ?ps 128 ?m' 2 1] s m h1 h2 by blast
  with s m show ?thesis by (simp add: numeral_2_eq_2)
qed









text \<open>
  C9: \<open>evaluate\<close> never raises \<open>AssertionError\<close>: whenever the selected scoring routine
  returns a matrix, the matrix has \<open>len(qs)\<close> rows.
\<close>

theorem evaluate_assertion_holds:
  "fst (evaluate w qs ps) \<noteq> Inl AssertionError \<and>
   (selected_scores (is_multi_vector (self w)) qs ps = Inr scores \<longrightarrow>
      length (trows scores) = len qs)"
proof
  show "fst (evaluate w qs ps) \<noteq> Inl AssertionError"
  proof (cases "selected_scores (is_multi_vector (self w)) qs ps")
    case (Inl e)
    with selected_scores_Inl [OF Inl] show ?thesis by (auto simp: evaluate_eq)
  next
    case (Inr scores)
    then show ?thesis by (simp add: evaluate_eq)
  qed
  show "selected_scores (is_multi_vector (self w)) qs ps = Inr scores \<longrightarrow>
      length (trows scores) = len qs"
    using selected_scores_Inr(1) by blast
qed

theorem evaluate_assertion_holds_witness:
  "fst (evaluate \<lparr>self = example_evaluator, log = []\<rparr> (Vectors [[1, 2], [1, 0 :: int]])
          (Vectors [[5, 3], [3, 7]])) \<noteq> Inl AssertionError \<and>
   selected_scores False (Vectors [[1, 2], [1, 0 :: int]]) (Vectors [[5, 3], [3, 7]]) =
     Inr \<lparr>ncols = 2, trows = [[11, 17], [5, 3]]\<rparr> \<and>
   length (trows \<lparr>ncols = 2, trows = [[11, 17], [5, 3 :: int]]\<rparr>) =
     len (Vectors [[1, 2], [1, 0 :: int]])"
proof -
  have s: "selected_scores False (Vectors [[1, 2], [1, 0 :: int]]) (Vectors [[5, 3], [3, 7]]) =
     Inr \<lparr>ncols = 2, trows = [[11, 17], [5, 3]]\<rparr>"
    by (simp add: selected_scores_def get_single_vector_scores_def stack_def einsum_bd_cd_def
        broadcastable_def bdot_def dot_def)
  have f: "is_multi_vector (self \<lparr>self = example_evaluator, log = []\<rparr>) = False"
    by (simp add: example_evaluator_def)
  from evaluate_assertion_holds [of "\<lparr>self = example_evaluator, log = []\<rparr>"
      "Vectors [[1, 2], [1, 0]]" "Vectors [[5, 3], [3, 7]]"
      "\<lparr>ncols = 2, trows = [[11, 17], [5, 3]]\<rparr>"] s
  show ?thesis unfolding f by blast
qed

text \<open>
  C10: appending any number \<open>m\<close> of all-zero token vectors to the token sequence of a
  query leaves the result of \<open>get_multi_vector_scores\<close> unchanged, for every list of
  queries, every list of passages and every batch size: the same matrix, entry by entry,
  or the same error.
\<close>

theorem multi_vector_scores_zero_tokens:
  "get_multi_vector_scores (qs[n := append_zero_tokens m (qs ! n)]) ps batch_size =
   get_multi_vector_scores qs ps batch_size"
proof -
  let ?qs = "qs[n := append_zero_tokens m (qs ! n)]"
  let ?f = "\<lambda>B. bindE (pad_sequence B) (batch_scores ps batch_size)"
  have "?f (slice ?qs i j) = ?f (slice qs i j)" for i j
    by (rule slice_update_body [where f = ?f and g = "append_zero_tokens m"])
      (rule query_batch_zero_tokens)
  then have "mapE (\<lambda>i. ?f (slice ?qs i (i + nat batch_size))) is =
             mapE (\<lambda>i. ?f (slice qs i (i + nat batch_size))) is" for "is"
    by simp
  then show ?thesis
    by (simp add: get_multi_vector_scores_unfold)
qed

end
